theory Spec2Isabelle
  imports Main
begin

section \<open>The queue simulator component\<close>

text \<open>
  The component \<open>QueueSimulator\<close> keeps a bounded circular queue in one state object and
  changes it from its event handlers. Each handler is embedded as a function on the
  component's state. The handlers report their outcome through the status line, so the
  status line is part of the state and its texts are a datatype.
\<close>

subsection \<open>JavaScript primitives used by the handlers\<close>

text \<open>
  A slot of \<open>data\<close> holds a number or \<open>null\<close>. A read outside the array yields
  \<open>undefined\<close>, and a write beyond the end leaves holes that read as \<open>undefined\<close>.
\<close>

datatype cell = Num int | Null | Undefined

text \<open>\<open>xs[i]\<close> as an expression.\<close>

definition js_get :: "cell list \<Rightarrow> int \<Rightarrow> cell" where
  "js_get xs i = (if 0 \<le> i \<and> i < int (length xs) then xs ! nat i else Undefined)"

text \<open>
  \<open>xs[i] = v\<close> on a fresh copy of the array: inside the array the slot is replaced, beyond
  its end the array grows, and a negative \<open>i\<close> names a property that is no element, so the
  elements stay as they are.
\<close>

definition js_set :: "cell list \<Rightarrow> int \<Rightarrow> cell \<Rightarrow> cell list" where
  "js_set xs i v =
     (if i < 0 then xs
      else if i < int (length xs) then xs[nat i := v]
      else xs @ replicate (nat i - length xs) Undefined @ [v])"

text \<open>
  \<open>a % b\<close> on integers: the remainder of the division truncated towards zero, with the
  sign of \<open>a\<close>. For \<open>b = 0\<close> the result is \<open>NaN\<close>, which is \<open>None\<close> here.
\<close>

definition js_rem :: "int \<Rightarrow> int \<Rightarrow> int option" where
  "js_rem a b = (if b = 0 then None else Some (sgn a * (\<bar>a\<bar> mod \<bar>b\<bar>)))"

text \<open>
  \<open>parseInt(s)\<close> with no radix: leading white space is skipped, one sign is read, a prefix
  \<open>0x\<close> or \<open>0X\<close> selects radix 16, and the longest run of digits of the radix is the number.
  With no digit the result is \<open>NaN\<close>, which is \<open>None\<close> here. Characters are bytes, so the
  white space beyond ASCII is not covered, and the number is exact where JavaScript rounds
  to a double above \<open>2 ^ 53\<close>.
\<close>

definition isWhiteSpace :: "char \<Rightarrow> bool" where
  "isWhiteSpace c \<longleftrightarrow> c \<in> set [CHR '' '', CHR 0x09, CHR 0x0A, CHR 0x0B, CHR 0x0C, CHR 0x0D]"

definition digitValue :: "char \<Rightarrow> nat option" where
  "digitValue c =
     (let n = (of_char c :: nat) in
      if 48 \<le> n \<and> n \<le> 57 then Some (n - 48)
      else if 97 \<le> n \<and> n \<le> 122 then Some (n - 87)
      else if 65 \<le> n \<and> n \<le> 90 then Some (n - 55)
      else None)"

definition radixDigit :: "nat \<Rightarrow> char \<Rightarrow> nat option" where
  "radixDigit R c =
     (case digitValue c of None \<Rightarrow> None | Some d \<Rightarrow> if d < R then Some d else None)"

fun leadingDigits :: "nat \<Rightarrow> string \<Rightarrow> nat list" where
  "leadingDigits R [] = []"
| "leadingDigits R (c # cs) =
     (case radixDigit R c of None \<Rightarrow> [] | Some d \<Rightarrow> d # leadingDigits R cs)"

definition stripSign :: "string \<Rightarrow> int \<times> string" where
  "stripSign s =
     (case s of
        [] \<Rightarrow> (1, s)
      | c # cs \<Rightarrow> if c = CHR ''-'' then (- 1, cs) else if c = CHR ''+'' then (1, cs) else (1, s))"

definition stripPrefix :: "string \<Rightarrow> nat \<times> string" where
  "stripPrefix s =
     (if take 2 s = ''0x'' \<or> take 2 s = ''0X'' then (16, drop 2 s) else (10, s))"

definition parseInt :: "string \<Rightarrow> int option" where
  "parseInt s =
     (let (sign, s1) = stripSign (dropWhile isWhiteSpace s);
          (R, s2) = stripPrefix s1;
          ds = leadingDigits R s2
      in if ds = [] then None
         else Some (sign * int (foldl (\<lambda>a d. a * R + d) 0 ds)))"

subsection \<open>State\<close>

text \<open>The interface \<open>QueueState\<close>; the field \<open>size\<close> is \<open>size_q\<close> here.\<close>

record QueueState =
  data :: "cell list"
  front :: int
  rear :: int
  size_q :: int
  maxSize :: int

text \<open>
  The status line. Each constructor is one text of the source:
  \<^item> \<open>SetSizeToBegin\<close>: "Set queue size to begin";
  \<^item> \<open>InvalidSize\<close>: "Please enter a valid size (1-20)";
  \<^item> \<open>Initialized n\<close>: "Queue initialized with size n";
  \<^item> \<open>InvalidNumber\<close>: "Please enter a valid number";
  \<^item> \<open>QueueFull\<close>: "Queue is full! Cannot enqueue.";
  \<^item> \<open>Enqueued v p\<close>: "Enqueued v at position p";
  \<^item> \<open>QueueEmptyDequeue\<close>: "Queue is empty! Cannot dequeue.";
  \<^item> \<open>Dequeued x\<close>: "Dequeued x from front";
  \<^item> \<open>QueueEmptyFront\<close>: "Queue is empty! No front element.";
  \<^item> \<open>FrontElement x\<close>: "Front element: x";
  \<^item> \<open>QueueEmptyRear\<close>: "Queue is empty! No rear element.";
  \<^item> \<open>RearElement x\<close>: "Rear element: x";
  \<^item> \<open>QueueIsEmpty b\<close>: "Queue is empty" for \<open>True\<close>, "Queue is not empty" for \<open>False\<close>;
  \<^item> \<open>QueueIsFull b\<close>: "Queue is full" for \<open>True\<close>, "Queue is not full" for \<open>False\<close>;
  \<^item> \<open>CurrentSize n m\<close>: "Current size: n/m";
  \<^item> \<open>ReturningToLab\<close>: "Returning to Virtual Lab...".
\<close>

datatype status =
    SetSizeToBegin
  | InvalidSize
  | Initialized int
  | InvalidNumber
  | QueueFull
  | Enqueued int int
  | QueueEmptyDequeue
  | Dequeued cell
  | QueueEmptyFront
  | FrontElement cell
  | QueueEmptyRear
  | RearElement cell
  | QueueIsEmpty bool
  | QueueIsFull bool
  | CurrentSize int int
  | ReturningToLab

text \<open>The state hooks of the component.\<close>

record component =
  queueState :: QueueState
  inputValue :: string
  queueSize :: string
  isInitialized :: bool
  animatingIndex :: "int option"
  statusMessage :: status

definition emptyQueueState :: QueueState where
  "emptyQueueState = \<lparr>data = [], front = 0, rear = - 1, size_q = 0, maxSize = 0\<rparr>"

text \<open>The state of the component when it is created.\<close>

definition initialComponent :: component where
  "initialComponent =
     \<lparr>queueState = emptyQueueState, inputValue = [], queueSize = [],
      isInitialized = False, animatingIndex = None, statusMessage = SetSizeToBegin\<rparr>"

subsection \<open>Handlers\<close>

definition initializeQueue :: "component \<Rightarrow> component" where
  "initializeQueue c =
     (case parseInt (queueSize c) of
        None \<Rightarrow> c\<lparr>statusMessage := InvalidSize\<rparr>
      | Some n \<Rightarrow>
          if n \<le> 0 \<or> n > 20 then c\<lparr>statusMessage := InvalidSize\<rparr>
          else c\<lparr>queueState :=
                   \<lparr>data = replicate (nat n) Null, front = 0, rear = - 1, size_q = 0,
                    maxSize = n\<rparr>,
                 isInitialized := True,
                 statusMessage := Initialized n\<rparr>)"

text \<open>
  \<open>enqueue\<close> up to the end of the handler; the timer it starts only clears the animation
  (\<open>enqueue_timeout\<close>). The result is \<open>None\<close> where the new rear index would be \<open>NaN\<close>.
\<close>

definition enqueue :: "component \<Rightarrow> component option" where
  "enqueue c =
     (let q = queueState c in
      case parseInt (inputValue c) of
        None \<Rightarrow> Some (c\<lparr>statusMessage := InvalidNumber\<rparr>)
      | Some v \<Rightarrow>
          if size_q q \<ge> maxSize q then Some (c\<lparr>statusMessage := QueueFull\<rparr>)
          else
            (case js_rem (rear q + 1) (maxSize q) of
               None \<Rightarrow> None
             | Some newRear \<Rightarrow>
                 Some (c\<lparr>animatingIndex := Some newRear,
                         queueState :=
                           q\<lparr>data := js_set (data q) newRear (Num v),
                             rear := newRear,
                             size_q := size_q q + 1\<rparr>,
                         inputValue := [],
                         statusMessage := Enqueued v newRear\<rparr>)))"

definition enqueue_timeout :: "component \<Rightarrow> component" where
  "enqueue_timeout c = c\<lparr>animatingIndex := None\<rparr>"

text \<open>
  \<open>dequeue\<close> has two parts. The handler checks for the empty queue, reads the front slot
  and starts a timer of 300 ms; the timer's callback writes the new state from the values
  the handler captured.
\<close>

record dequeue_closure =
  captured :: QueueState
  newData :: "cell list"
  dequeuedValue :: cell

definition dequeue_click :: "component \<Rightarrow> component \<times> dequeue_closure option" where
  "dequeue_click c =
     (let q = queueState c in
      if size_q q = 0 then (c\<lparr>statusMessage := QueueEmptyDequeue\<rparr>, None)
      else
        (c\<lparr>animatingIndex := Some (front q)\<rparr>,
         Some \<lparr>captured = q,
               newData = js_set (data q) (front q) Null,
               dequeuedValue = js_get (data q) (front q)\<rparr>))"

definition dequeue_timeout :: "dequeue_closure \<Rightarrow> component \<Rightarrow> component option" where
  "dequeue_timeout cl c =
     (let q = captured cl in
      case js_rem (front q + 1) (maxSize q) of
        None \<Rightarrow> None
      | Some newFront \<Rightarrow>
          Some (c\<lparr>queueState := q\<lparr>data := newData cl, front := newFront,
                                   size_q := size_q q - 1\<rparr>,
                  statusMessage := Dequeued (dequeuedValue cl),
                  animatingIndex := None\<rparr>))"

text \<open>
  One whole dequeue: the handler, then its own callback applied to the state the handler
  left. This is what a press of Dequeue does when nothing else runs before its timer
  fires; \<open>step\<close> below has the two parts as separate events.
\<close>

definition dequeue :: "component \<Rightarrow> component option" where
  "dequeue c =
     (case dequeue_click c of
        (c', None) \<Rightarrow> Some c'
      | (c', Some cl) \<Rightarrow> dequeue_timeout cl c')"

definition getFront :: "component \<Rightarrow> component" where
  "getFront c =
     (let q = queueState c in
      if size_q q = 0 then c\<lparr>statusMessage := QueueEmptyFront\<rparr>
      else c\<lparr>statusMessage := FrontElement (js_get (data q) (front q))\<rparr>)"

definition getRear :: "component \<Rightarrow> component" where
  "getRear c =
     (let q = queueState c in
      if size_q q = 0 then c\<lparr>statusMessage := QueueEmptyRear\<rparr>
      else c\<lparr>statusMessage := RearElement (js_get (data q) (rear q))\<rparr>)"

definition checkIsEmpty :: "component \<Rightarrow> component" where
  "checkIsEmpty c = c\<lparr>statusMessage := QueueIsEmpty (size_q (queueState c) = 0)\<rparr>"

definition checkIsFull :: "component \<Rightarrow> component" where
  "checkIsFull c =
     c\<lparr>statusMessage := QueueIsFull (size_q (queueState c) \<ge> maxSize (queueState c))\<rparr>"

definition showSize :: "component \<Rightarrow> component" where
  "showSize c =
     c\<lparr>statusMessage := CurrentSize (size_q (queueState c)) (maxSize (queueState c))\<rparr>"

definition resetQueue :: "component \<Rightarrow> component" where
  "resetQueue c =
     c\<lparr>queueState := emptyQueueState, isInitialized := False, inputValue := [],
       queueSize := [], statusMessage := SetSizeToBegin, animatingIndex := None\<rparr>"

definition goBack :: "component \<Rightarrow> component" where
  "goBack c = c\<lparr>statusMessage := ReturningToLab\<rparr>"

subsection \<open>Runs of the component\<close>

text \<open>
  Besides the state hooks, a running component has the callbacks of the dequeue timers
  that were started and have not fired yet. They all wait 300 ms, so they fire in the
  order in which they were started, and nothing cancels them: neither another handler nor
  \<open>resetQueue\<close>. \<open>pending\<close> holds them, oldest first.
\<close>

record system =
  cstate :: component
  pending :: "dequeue_closure list"

definition initialSystem :: system where
  "initialSystem = \<lparr>cstate = initialComponent, pending = []\<rparr>"

text \<open>
  The events: typing into the two text fields, the buttons, the end of the enqueue
  animation, and \<open>DequeueTimeout\<close>, the firing of the oldest pending dequeue callback (with
  none pending nothing happens). \<open>Dequeue\<close> is the press of the button alone. Every event
  may come at any time, whatever the page shows or disables at that moment, so the runs
  here include all runs of the component.
\<close>

datatype event =
    SetQueueSize string
  | SetInputValue string
  | InitializeQueue
  | Enqueue
  | EnqueueTimeout
  | Dequeue
  | DequeueTimeout
  | GetFront
  | GetRear
  | CheckIsEmpty
  | CheckIsFull
  | ShowSize
  | ResetQueue
  | GoBack

fun step :: "event \<Rightarrow> system \<Rightarrow> system option" where
  "step (SetQueueSize t) s = Some (s\<lparr>cstate := (cstate s)\<lparr>queueSize := t\<rparr>\<rparr>)"
| "step (SetInputValue t) s = Some (s\<lparr>cstate := (cstate s)\<lparr>inputValue := t\<rparr>\<rparr>)"
| "step InitializeQueue s = Some (s\<lparr>cstate := initializeQueue (cstate s)\<rparr>)"
| "step Enqueue s =
     (case enqueue (cstate s) of None \<Rightarrow> None | Some c' \<Rightarrow> Some (s\<lparr>cstate := c'\<rparr>))"
| "step EnqueueTimeout s = Some (s\<lparr>cstate := enqueue_timeout (cstate s)\<rparr>)"
| "step Dequeue s =
     (case dequeue_click (cstate s) of
        (c', None) \<Rightarrow> Some (s\<lparr>cstate := c'\<rparr>)
      | (c', Some cl) \<Rightarrow> Some (s\<lparr>cstate := c', pending := pending s @ [cl]\<rparr>))"
| "step DequeueTimeout s =
     (case pending s of
        [] \<Rightarrow> Some s
      | cl # rest \<Rightarrow>
          (case dequeue_timeout cl (cstate s) of
             None \<Rightarrow> None
           | Some c' \<Rightarrow> Some \<lparr>cstate = c', pending = rest\<rparr>))"
| "step GetFront s = Some (s\<lparr>cstate := getFront (cstate s)\<rparr>)"
| "step GetRear s = Some (s\<lparr>cstate := getRear (cstate s)\<rparr>)"
| "step CheckIsEmpty s = Some (s\<lparr>cstate := checkIsEmpty (cstate s)\<rparr>)"
| "step CheckIsFull s = Some (s\<lparr>cstate := checkIsFull (cstate s)\<rparr>)"
| "step ShowSize s = Some (s\<lparr>cstate := showSize (cstate s)\<rparr>)"
| "step ResetQueue s = Some (s\<lparr>cstate := resetQueue (cstate s)\<rparr>)"
| "step GoBack s = Some (s\<lparr>cstate := goBack (cstate s)\<rparr>)"

fun run :: "system \<Rightarrow> event list \<Rightarrow> system option" where
  "run s [] = Some s"
| "run s (e # es) = (case step e s of None \<Rightarrow> None | Some s' \<Rightarrow> run s' es)"

subsection \<open>Well-formed queues and the stored sequence\<close>

text \<open>A slot is occupied when it does not hold the empty marker \<open>null\<close>.\<close>

definition occupied :: "cell \<Rightarrow> bool" where
  "occupied x \<longleftrightarrow> x \<noteq> Null"

text \<open>
  Index \<open>i\<close> lies in the window of \<open>size\<close> slots that starts at \<open>front\<close> and wraps at
  \<open>maxSize\<close>.
\<close>

definition inWindow :: "QueueState \<Rightarrow> int \<Rightarrow> bool" where
  "inWindow q i \<longleftrightarrow> (i - front q) mod maxSize q < size_q q"

definition slot_ok :: "QueueState \<Rightarrow> nat \<Rightarrow> bool" where
  "slot_ok q i =
     (case data q ! i of
        Num v \<Rightarrow> inWindow q (int i)
      | Null \<Rightarrow> \<not> inWindow q (int i)
      | Undefined \<Rightarrow> False)"

text \<open>
  The queues that \<open>initializeQueue\<close> creates and the handlers keep: the array has
  \<open>maxSize\<close> slots, the indices are in range, \<open>rear\<close> is either the initial \<open>-1\<close> of an
  untouched queue or the last slot of the window, exactly the slots of the window hold
  numbers and the others \<open>null\<close>, and \<open>size\<close> counts the occupied slots.
\<close>

definition queue_inv :: "QueueState \<Rightarrow> bool" where
  "queue_inv q \<longleftrightarrow>
     1 \<le> maxSize q \<and> int (length (data q)) = maxSize q \<and>
     0 \<le> front q \<and> front q < maxSize q \<and>
     0 \<le> size_q q \<and> size_q q \<le> maxSize q \<and>
     ((size_q q = 0 \<and> rear q = - 1 \<and> front q = 0) \<or>
      (0 \<le> rear q \<and> rear q < maxSize q \<and>
       rear q = (front q + size_q q - 1) mod maxSize q)) \<and>
     (\<forall>i \<in> {0..<length (data q)}. slot_ok q i) \<and>
     int (length (filter occupied (data q))) = size_q q"

text \<open>The stored cells from \<open>front\<close> to \<open>rear\<close>, oldest first.\<close>

definition contents :: "QueueState \<Rightarrow> cell list" where
  "contents q =
     map (\<lambda>k. js_get (data q) ((front q + int k) mod maxSize q)) [0..<nat (size_q q)]"

text \<open>
  Sequential runs of enqueue and dequeue operations: every operation is complete before
  the next one starts, so each dequeue timer fires before anything else is pressed, and
  every operation is called where the queue can take it. \<open>Enq s\<close> types the text \<open>s\<close>, which
  must hold a number, and presses Enqueue while \<open>size < maxSize\<close>; \<open>Deq\<close> presses Dequeue
  while \<open>size > 0\<close> and waits for its callback. The run collects the numbers passed to
  \<open>enqueue\<close> and the values that \<open>dequeue\<close> reports, in call order. The runs in which
  something is pressed while a dequeue timer is pending are runs of \<open>step\<close> only.
\<close>

datatype queue_op = Enq string | Deq

datatype run_error = PreconditionViolated | IndexNaN | NoValueReported

fun sequential_run :: "component \<Rightarrow> queue_op list \<Rightarrow> run_error + (int list \<times> cell list \<times> component)" where
  "sequential_run c [] = Inr ([], [], c)"
| "sequential_run c (Enq s # ops) =
     (case parseInt s of
        None \<Rightarrow> Inl PreconditionViolated
      | Some v \<Rightarrow>
          if \<not> size_q (queueState c) < maxSize (queueState c) then Inl PreconditionViolated
          else
            (case enqueue (c\<lparr>inputValue := s\<rparr>) of
               None \<Rightarrow> Inl IndexNaN
             | Some c' \<Rightarrow>
                 (case sequential_run c' ops of
                    Inl e \<Rightarrow> Inl e
                  | Inr (ins, outs, c'') \<Rightarrow> Inr (v # ins, outs, c''))))"
| "sequential_run c (Deq # ops) =
     (if \<not> size_q (queueState c) > 0 then Inl PreconditionViolated
      else
        (case dequeue c of
           None \<Rightarrow> Inl IndexNaN
         | Some c' \<Rightarrow>
             (case statusMessage c' of
                Dequeued x \<Rightarrow>
                  (case sequential_run c' ops of
                     Inl e \<Rightarrow> Inl e
                   | Inr (ins, outs, c'') \<Rightarrow> Inr (ins, x # outs, c''))
              | _ \<Rightarrow> Inl NoValueReported)))"

text \<open>
  A pending dequeue callback is well formed when the handler that started it saw a
  well-formed queue that was not empty, and took its copy of the array with the front
  slot cleared.
\<close>

definition closure_ok :: "dequeue_closure \<Rightarrow> bool" where
  "closure_ok cl \<longleftrightarrow>
     queue_inv (captured cl) \<and> 0 < size_q (captured cl) \<and>
     newData cl = (data (captured cl))[nat (front (captured cl)) := Null]"

text \<open>
  What holds in every state of a run: the queue is well formed, or the component is not
  initialized and the queue is the empty state of creation; and every pending callback is
  well formed. A component that is not initialized may hold a well-formed queue as well:
  a callback that fires after a reset writes one.
\<close>

definition sys_inv :: "system \<Rightarrow> bool" where
  "sys_inv s \<longleftrightarrow>
     (queue_inv (queueState (cstate s)) \<or>
      (\<not> isInitialized (cstate s) \<and> queueState (cstate s) = emptyQueueState)) \<and>
     (\<forall>cl \<in> set (pending s). closure_ok cl)"

text \<open>Nothing is stored and no dequeue callback is pending.\<close>

definition pristine :: "system \<Rightarrow> bool" where
  "pristine s \<longleftrightarrow> queueState (cstate s) = emptyQueueState \<and> pending s = []"

text \<open>A handler changed nothing but the status line.\<close>

definition only_status :: "component \<Rightarrow> component \<Rightarrow> bool" where
  "only_status c c' \<longleftrightarrow> c' = c\<lparr>statusMessage := statusMessage c'\<rparr>"

subsection \<open>Example states\<close>

text \<open>
  States of a queue of three slots: just created; after the numbers 5 and 6 went in, with
  7 typed into the input field; and the same queue after 5 and 6 came out again and 8 went
  in, so that the window has moved on and \<open>front\<close> is not 0.
\<close>

definition example_fresh :: component where
  "example_fresh =
     \<lparr>queueState = \<lparr>data = [Null, Null, Null], front = 0, rear = - 1, size_q = 0, maxSize = 3\<rparr>,
      inputValue = [], queueSize = ''3'', isInitialized = True, animatingIndex = None,
      statusMessage = Initialized 3\<rparr>"

definition example_partial :: component where
  "example_partial =
     \<lparr>queueState = \<lparr>data = [Num 5, Num 6, Null], front = 0, rear = 1, size_q = 2, maxSize = 3\<rparr>,
      inputValue = ''7'', queueSize = ''3'', isInitialized = True, animatingIndex = Some 1,
      statusMessage = Enqueued 6 1\<rparr>"

definition example_single :: component where
  "example_single =
     \<lparr>queueState = \<lparr>data = [Null, Null, Num 8], front = 2, rear = 2, size_q = 1, maxSize = 3\<rparr>,
      inputValue = [], queueSize = ''3'', isInitialized = True, animatingIndex = Some 2,
      statusMessage = Enqueued 8 2\<rparr>"

text \<open>A full queue of two slots, with 9 typed into the input field.\<close>

definition example_full :: component where
  "example_full =
     \<lparr>queueState = \<lparr>data = [Num 1, Num 2], front = 0, rear = 1, size_q = 2, maxSize = 2\<rparr>,
      inputValue = ''9'', queueSize = ''2'', isInitialized = True, animatingIndex = Some 1,
      statusMessage = Enqueued 2 1\<rparr>"

text \<open>
  The events that fill a queue of three slots with 1, 2 and 3, starting at the creation of
  the component.
\<close>

definition fill_three :: "event list" where
  "fill_three =
     [SetQueueSize ''3'', InitializeQueue, SetInputValue ''1'', Enqueue,
      SetInputValue ''2'', Enqueue, SetInputValue ''3'', Enqueue]"

text \<open>The same with 5 and 6 only, so that one slot is free.\<close>

definition fill_two :: "event list" where
  "fill_two =
     [SetQueueSize ''3'', InitializeQueue, SetInputValue ''5'', Enqueue,
      SetInputValue ''6'', Enqueue]"

text \<open>A field of the component's state at the end of a run from its creation.\<close>

definition after :: "event list \<Rightarrow> (component \<Rightarrow> 'a) \<Rightarrow> 'a option" where
  "after es f = map_option (\<lambda>s. f (cstate s)) (run initialSystem es)"

section \<open>Auxiliary facts\<close>

subsection \<open>Arithmetic and lists\<close>

lemma js_rem_nonneg: "0 \<le> a \<Longrightarrow> 0 < b \<Longrightarrow> js_rem a b = Some (a mod b)"
  by (auto simp: js_rem_def sgn_if)

lemma mod_shift_eq:
  fixes i f s m :: int
  assumes "0 \<le> i" "i < m" "0 \<le> s" "s < m"
  shows "((i - f) mod m = s) = (i = (f + s) mod m)"
proof
  assume h: "(i - f) mod m = s"
  have "(f + s) mod m = (f + (i - f) mod m) mod m" using h by simp
  also have "\<dots> = (f + (i - f)) mod m" by (rule mod_add_right_eq)
  also have "\<dots> = i" using assms by simp
  finally show "i = (f + s) mod m" by simp
next
  assume h: "i = (f + s) mod m"
  have "(i - f) mod m = ((f + s) mod m - f) mod m" using h by simp
  also have "\<dots> = (f + s - f) mod m" by (rule mod_diff_left_eq)
  also have "\<dots> = s" using assms by simp
  finally show "(i - f) mod m = s" .
qed

lemma mod_pred:
  fixes k m :: int
  assumes "0 \<le> k" "k < m"
  shows "(k - 1) mod m = (if k = 0 then m - 1 else k - 1)"
  using assms zmod_minus1 by fastforce

lemma filter_update_add:
  "i < length xs \<Longrightarrow> \<not> P (xs ! i) \<Longrightarrow> P v \<Longrightarrow>
   length (filter P (xs[i := v])) = Suc (length (filter P xs))"
  by (induction xs arbitrary: i) (auto split: nat.splits)

lemma filter_update_del:
  "i < length xs \<Longrightarrow> P (xs ! i) \<Longrightarrow> \<not> P v \<Longrightarrow>
   Suc (length (filter P (xs[i := v]))) = length (filter P xs)"
  by (induction xs arbitrary: i) (auto split: nat.splits)

lemma new_rear_eq:
  assumes "queue_inv q"
  shows "(rear q + 1) mod maxSize q = (front q + size_q q) mod maxSize q"
proof (cases "size_q q = 0 \<and> rear q = - 1 \<and> front q = 0")
  case True
  then show ?thesis by simp
next
  case False
  with assms have r: "rear q = (front q + size_q q - 1) mod maxSize q"
    by (auto simp: queue_inv_def)
  have "(rear q + 1) mod maxSize q = ((front q + size_q q - 1) mod maxSize q + 1) mod maxSize q"
    using r by simp
  also have "\<dots> = (front q + size_q q - 1 + 1) mod maxSize q"
    by (rule mod_add_left_eq)
  finally show ?thesis by simp
qed

lemma inWindow_front:
  assumes "queue_inv q" "0 < size_q q"
  shows "inWindow q (front q)"
  using assms by (simp add: inWindow_def queue_inv_def)

lemma slot_front:
  assumes "queue_inv q" "0 < size_q q"
  shows "\<exists>v. data q ! nat (front q) = Num v"
proof -
  have "nat (front q) < length (data q)" using assms by (auto simp: queue_inv_def)
  with assms have "slot_ok q (nat (front q))" by (auto simp: queue_inv_def)
  moreover have "inWindow q (int (nat (front q)))" using inWindow_front[OF assms] assms by (simp add: queue_inv_def)
  ultimately show ?thesis by (auto simp: slot_ok_def split: cell.splits)
qed

lemma inv_bounds:
  assumes "queue_inv q"
  shows "1 \<le> maxSize q" "int (length (data q)) = maxSize q" "0 \<le> front q"
    "front q < maxSize q" "0 \<le> size_q q" "size_q q \<le> maxSize q"
    "int (length (filter occupied (data q))) = size_q q"
  using assms by (simp_all add: queue_inv_def)

lemma inv_slot:
  assumes "queue_inv q" "0 \<le> i" "i < maxSize q"
  shows "slot_ok q (nat i)"
proof -
  have "nat i < length (data q)" using assms inv_bounds(2)[OF assms(1)] by linarith
  then show ?thesis using assms(1) by (simp add: queue_inv_def)
qed

lemma slot_new_rear:
  assumes "queue_inv q" "size_q q < maxSize q"
  shows "data q ! nat ((rear q + 1) mod maxSize q) = Null"
proof -
  define n where "n = (rear q + 1) mod maxSize q"
  note bs = inv_bounds[OF assms(1)]
  have m: "0 < maxSize q" using bs by simp
  have b: "0 \<le> n" "n < maxSize q" using m by (simp_all add: n_def)
  have ok: "slot_ok q (nat n)" using inv_slot[OF assms(1) b] .
  have "n = (front q + size_q q) mod maxSize q"
    unfolding n_def by (rule new_rear_eq[OF assms(1)])
  then have "(n - front q) mod maxSize q = size_q q"
    using mod_shift_eq[of n "maxSize q" "size_q q" "front q"] b bs(5) assms(2) by simp
  then have "\<not> inWindow q (int (nat n))" using b by (simp add: inWindow_def)
  with ok show ?thesis unfolding n_def[symmetric] by (auto simp: slot_ok_def split: cell.splits)
qed


lemma inWindow_enq:
  assumes "queue_inv q" "size_q q < maxSize q" "0 \<le> i" "i < maxSize q"
  shows "inWindow (q\<lparr>data := d, rear := r, size_q := size_q q + 1\<rparr>) i
         = (inWindow q i \<or> i = (rear q + 1) mod maxSize q)"
proof -
  note bs = inv_bounds[OF assms(1)]
  have "((i - front q) mod maxSize q = size_q q) = (i = (front q + size_q q) mod maxSize q)"
    using mod_shift_eq[of i "maxSize q" "size_q q" "front q"] assms bs(5) by simp
  then have "((i - front q) mod maxSize q = size_q q) = (i = (rear q + 1) mod maxSize q)"
    using new_rear_eq[OF assms(1)] by simp
  then show ?thesis by (auto simp: inWindow_def)
qed

lemma enqueue_inv:
  assumes "queue_inv q" "size_q q < maxSize q"
  shows "queue_inv (q\<lparr>data := (data q)[nat ((rear q + 1) mod maxSize q) := Num v],
                      rear := (rear q + 1) mod maxSize q,
                      size_q := size_q q + 1\<rparr>)"
proof -
  define n where "n = (rear q + 1) mod maxSize q"
  define q' where "q' = q\<lparr>data := (data q)[nat n := Num v], rear := n, size_q := size_q q + 1\<rparr>"
  note bs = inv_bounds[OF assms(1)]
  have m: "0 < maxSize q" using bs by simp
  have b: "0 \<le> n" "n < maxSize q" using m by (simp_all add: n_def)
  have nlen: "nat n < length (data q)" using b bs(2) by linarith
  have old: "data q ! nat n = Null" unfolding n_def by (rule slot_new_rear[OF assms])
  have r: "n = (front q + (size_q q + 1) - 1) mod maxSize q"
    unfolding n_def using new_rear_eq[OF assms(1)] by simp
  have cnt: "int (length (filter occupied (data q'))) = size_q q'"
    using filter_update_add[of "nat n" "data q" occupied "Num v"] nlen old bs(7)
    by (simp add: q'_def occupied_def)
  have slots: "slot_ok q' i" if "i < length (data q)" for i
  proof -
    have ib: "0 \<le> int i" "int i < maxSize q" using that bs(2) by simp_all
    have w: "inWindow q' (int i) = (inWindow q (int i) \<or> int i = n)"
      unfolding q'_def n_def by (rule inWindow_enq[OF assms ib])
    show ?thesis
    proof (cases "i = nat n")
      case True
      then have "int i = n" using b by simp
      with w True that show ?thesis by (simp add: slot_ok_def q'_def)
    next
      case False
      then have ne: "int i \<noteq> n" using b by auto
      have "slot_ok q i" using inv_slot[OF assms(1) ib] by simp
      moreover have "data q' ! i = data q ! i" using False by (simp add: q'_def)
      ultimately show ?thesis using w ne by (simp add: slot_ok_def split: cell.splits)
    qed
  qed
  have "queue_inv q'"
    unfolding queue_inv_def
    using bs b r cnt slots assms(2) by (simp add: q'_def)
  then show ?thesis by (simp add: q'_def n_def)
qed

lemma inWindow_deq:
  assumes "queue_inv q" "0 < size_q q" "0 \<le> i" "i < maxSize q"
  shows "inWindow (q\<lparr>data := d, front := (front q + 1) mod maxSize q, size_q := size_q q - 1\<rparr>) i
         = (inWindow q i \<and> i \<noteq> front q)"
proof -
  note bs = inv_bounds[OF assms(1)]
  define k where "k = (i - front q) mod maxSize q"
  have m: "0 < maxSize q" using bs by simp
  have kb: "0 \<le> k" "k < maxSize q" using m by (simp_all add: k_def)
  have "(i - (front q + 1) mod maxSize q) mod maxSize q = (i - (front q + 1)) mod maxSize q"
    by (rule mod_diff_right_eq)
  also have "\<dots> = (i - front q - 1) mod maxSize q" by (simp add: algebra_simps)
  also have "\<dots> = (k - 1) mod maxSize q"
    unfolding k_def by (rule mod_diff_left_eq[symmetric])
  also have "\<dots> = (if k = 0 then maxSize q - 1 else k - 1)"
    by (rule mod_pred[OF kb])
  finally have e: "(i - (front q + 1) mod maxSize q) mod maxSize q
      = (if k = 0 then maxSize q - 1 else k - 1)" .
  have "(k = 0) = (i = (front q + 0) mod maxSize q)"
    unfolding k_def using mod_shift_eq[of i "maxSize q" 0 "front q"] assms(3,4) m by simp
  then have z: "(k = 0) = (i = front q)" using bs by simp
  show ?thesis
    using e z bs(6) by (auto simp: inWindow_def k_def[symmetric])
qed

lemma dequeue_inv:
  assumes "queue_inv q" "0 < size_q q"
  shows "queue_inv (q\<lparr>data := (data q)[nat (front q) := Null],
                      front := (front q + 1) mod maxSize q,
                      size_q := size_q q - 1\<rparr>)"
proof -
  define q' where "q' = q\<lparr>data := (data q)[nat (front q) := Null],
                      front := (front q + 1) mod maxSize q,
                      size_q := size_q q - 1\<rparr>"
  note bs = inv_bounds[OF assms(1)]
  have m: "0 < maxSize q" using bs by simp
  have flen: "nat (front q) < length (data q)" using bs by linarith
  obtain v where old: "data q ! nat (front q) = Num v" using slot_front[OF assms] by blast
  have rr: "0 \<le> rear q \<and> rear q < maxSize q \<and> rear q = (front q + size_q q - 1) mod maxSize q"
    using assms by (auto simp: queue_inv_def)
  have "((front q + 1) mod maxSize q + (size_q q - 1 - 1)) mod maxSize q
      = (front q + 1 + (size_q q - 1 - 1)) mod maxSize q"
    by (rule mod_add_left_eq)
  then have r: "rear q = ((front q + 1) mod maxSize q + (size_q q - 1) - 1) mod maxSize q"
    using rr by (simp add: algebra_simps)
  have cnt: "int (length (filter occupied (data q'))) = size_q q'"
    using filter_update_del[of "nat (front q)" "data q" occupied Null] flen old bs(7)
    by (simp add: q'_def occupied_def)
  have slots: "slot_ok q' i" if "i < length (data q)" for i
  proof -
    have ib: "0 \<le> int i" "int i < maxSize q" using that bs(2) by simp_all
    have w: "inWindow q' (int i) = (inWindow q (int i) \<and> int i \<noteq> front q)"
      unfolding q'_def by (rule inWindow_deq[OF assms ib])
    show ?thesis
    proof (cases "i = nat (front q)")
      case True
      then have "int i = front q" using bs by simp
      with w True that show ?thesis by (simp add: slot_ok_def q'_def)
    next
      case False
      then have ne: "int i \<noteq> front q" using bs by auto
      have "slot_ok q i" using inv_slot[OF assms(1) ib] by simp
      moreover have "data q' ! i = data q ! i" using False by (simp add: q'_def)
      ultimately show ?thesis using w ne by (simp add: slot_ok_def split: cell.splits)
    qed
  qed
  have "queue_inv q'"
    unfolding queue_inv_def
    using bs rr r cnt slots assms(2) m by (simp add: q'_def)
  then show ?thesis by (simp add: q'_def)
qed


lemma js_get_update:
  "0 \<le> j \<Longrightarrow> js_get (xs[nat j := v]) i = (if i = j \<and> j < int (length xs) then v else js_get xs i)"
  by (auto simp: js_get_def nth_list_update)

lemma contents_enq:
  assumes "queue_inv q" "size_q q < maxSize q"
  shows "contents (q\<lparr>data := (data q)[nat ((rear q + 1) mod maxSize q) := Num v],
                      rear := (rear q + 1) mod maxSize q,
                      size_q := size_q q + 1\<rparr>) = contents q @ [Num v]"
proof -
  define n where "n = (rear q + 1) mod maxSize q"
  note bs = inv_bounds[OF assms(1)]
  have m: "0 < maxSize q" using bs by simp
  have b: "0 \<le> n" "n < maxSize q" using m by (simp_all add: n_def)
  have nlen: "n < int (length (data q))" using b bs(2) by linarith
  have ne: "n = (front q + size_q q) mod maxSize q"
    unfolding n_def by (rule new_rear_eq[OF assms(1)])
  have sz: "nat (size_q q + 1) = Suc (nat (size_q q))" using bs by simp
  have last: "js_get ((data q)[nat n := Num v]) ((front q + int (nat (size_q q))) mod maxSize q) = Num v"
    using b nlen ne bs(5) by (simp add: js_get_update)
  have other: "js_get ((data q)[nat n := Num v]) ((front q + int k) mod maxSize q)
        = js_get (data q) ((front q + int k) mod maxSize q)" if "k < nat (size_q q)" for k
  proof -
    define i where "i = (front q + int k) mod maxSize q"
    have ib: "0 \<le> i" "i < maxSize q" using m by (simp_all add: i_def)
    have kb: "0 \<le> int k" "int k < maxSize q" using that assms(2) by simp_all
    have "(i - front q) mod maxSize q = int k"
      using mod_shift_eq[OF ib kb, of "front q"] by (simp add: i_def)
    moreover have "((i - front q) mod maxSize q = size_q q) = (i = n)"
      using mod_shift_eq[OF ib bs(5) assms(2), of "front q"] ne by simp
    ultimately have "i \<noteq> n" using that by auto
    then show ?thesis using b by (simp add: js_get_update i_def)
  qed
  show ?thesis
    unfolding contents_def n_def[symmetric]
    using last other by (simp add: sz)
qed

lemma contents_deq:
  assumes "queue_inv q" "0 < size_q q"
  shows "contents q = js_get (data q) (front q) #
           contents (q\<lparr>data := (data q)[nat (front q) := Null],
                      front := (front q + 1) mod maxSize q,
                      size_q := size_q q - 1\<rparr>)"
proof -
  note bs = inv_bounds[OF assms(1)]
  have m: "0 < maxSize q" using bs by simp
  have sz: "nat (size_q q) = Suc (nat (size_q q - 1))" using assms(2) by simp
  have hd: "(front q + int 0) mod maxSize q = front q" using bs by simp
  have other: "js_get ((data q)[nat (front q) := Null]) (((front q + 1) mod maxSize q + int k) mod maxSize q)
        = js_get (data q) ((front q + int (Suc k)) mod maxSize q)" if "k < nat (size_q q - 1)" for k
  proof -
    define i where "i = (front q + int (Suc k)) mod maxSize q"
    have ib: "0 \<le> i" "i < maxSize q" using m by (simp_all add: i_def)
    have kb: "0 \<le> int (Suc k)" "int (Suc k) < maxSize q" using that bs(6) by simp_all
    have "((front q + 1) mod maxSize q + int k) mod maxSize q = (front q + 1 + int k) mod maxSize q"
      by (rule mod_add_left_eq)
    then have e: "((front q + 1) mod maxSize q + int k) mod maxSize q = i"
      by (simp add: i_def algebra_simps)
    have "(i - front q) mod maxSize q = int (Suc k)"
      using mod_shift_eq[OF ib kb, of "front q"] by (simp add: i_def)
    moreover have "((i - front q) mod maxSize q = 0) = (i = front q)"
      using mod_shift_eq[OF ib, of 0 "front q"] m bs by simp
    ultimately have "i \<noteq> front q" by auto
    then show ?thesis using bs(3) unfolding e i_def[symmetric] by (simp add: js_get_update)
  qed
  have "contents q = map (\<lambda>k. js_get (data q) ((front q + int k) mod maxSize q))
          (0 # map Suc [0..<nat (size_q q - 1)])"
    unfolding contents_def sz by (simp only: upt_conv_Cons map_Suc_upt zero_less_Suc)
  then show ?thesis
    using hd other by (simp add: contents_def comp_def del: of_nat_Suc)
qed

subsection \<open>The handlers on well-formed queues\<close>

lemma inv_rear:
  assumes "queue_inv q"
  shows "- 1 \<le> rear q" "rear q < maxSize q"
proof -
  have "rear q = - 1 \<or> (0 \<le> rear q \<and> rear q < maxSize q)" "1 \<le> maxSize q"
    using assms unfolding queue_inv_def by blast+
  then show "- 1 \<le> rear q" "rear q < maxSize q" by auto
qed

lemma inv_rear_pos:
  assumes "queue_inv q" "0 < size_q q"
  shows "0 \<le> rear q" "rear q = (front q + size_q q - 1) mod maxSize q"
proof -
  have "size_q q = 0 \<or> (0 \<le> rear q \<and> rear q = (front q + size_q q - 1) mod maxSize q)"
    using assms(1) unfolding queue_inv_def by blast
  then show "0 \<le> rear q" "rear q = (front q + size_q q - 1) mod maxSize q"
    using assms(2) by auto
qed

lemma slot_rear:
  assumes "queue_inv q" "0 < size_q q"
  shows "\<exists>v. data q ! nat (rear q) = Num v"
proof -
  note bs = inv_bounds[OF assms(1)]
  note rp = inv_rear_pos[OF assms]
  have rb: "rear q < maxSize q" by (rule inv_rear(2)[OF assms(1)])
  have ok: "slot_ok q (nat (rear q))" by (rule inv_slot[OF assms(1) rp(1) rb])
  have sb: "0 \<le> size_q q - 1" "size_q q - 1 < maxSize q" using assms(2) bs(6) by simp_all
  have "rear q = (front q + (size_q q - 1)) mod maxSize q" using rp(2) by (simp add: algebra_simps)
  then have "(rear q - front q) mod maxSize q = size_q q - 1"
    using mod_shift_eq[OF rp(1) rb sb, of "front q"] by simp
  then have "inWindow q (int (nat (rear q)))" using rp(1) by (simp add: inWindow_def)
  with ok show ?thesis by (auto simp: slot_ok_def split: cell.splits)
qed

lemma enqueue_accept:
  assumes "queue_inv (queueState c)" "parseInt (inputValue c) = Some v"
    "size_q (queueState c) < maxSize (queueState c)"
  shows "enqueue c =
    Some (c\<lparr>animatingIndex := Some ((rear (queueState c) + 1) mod maxSize (queueState c)),
            queueState := (queueState c)
              \<lparr>data := (data (queueState c))
                  [nat ((rear (queueState c) + 1) mod maxSize (queueState c)) := Num v],
               rear := (rear (queueState c) + 1) mod maxSize (queueState c),
               size_q := size_q (queueState c) + 1\<rparr>,
            inputValue := [],
            statusMessage := Enqueued v ((rear (queueState c) + 1) mod maxSize (queueState c))\<rparr>)"
proof -
  define q where "q = queueState c"
  note bs = inv_bounds[OF assms(1)[folded q_def]]
  note rs = inv_rear[OF assms(1)[folded q_def]]
  have m: "0 < maxSize q" using bs by simp
  have j: "js_rem (rear q + 1) (maxSize q) = Some ((rear q + 1) mod maxSize q)"
    using rs m by (intro js_rem_nonneg) simp_all
  have b: "0 \<le> (rear q + 1) mod maxSize q" "(rear q + 1) mod maxSize q < int (length (data q))"
    using m bs(2) by simp_all
  then have s: "js_set (data q) ((rear q + 1) mod maxSize q) (Num v)
      = (data q)[nat ((rear q + 1) mod maxSize q) := Num v]"
    by (simp add: js_set_def)
  show ?thesis
    using assms(2,3) j s by (simp add: enqueue_def q_def[symmetric] Let_def)
qed

lemma dequeue_accept:
  assumes "queue_inv (queueState c)" "0 < size_q (queueState c)"
  shows "dequeue c =
    Some (c\<lparr>animatingIndex := None,
            queueState := (queueState c)
              \<lparr>data := (data (queueState c))[nat (front (queueState c)) := Null],
               front := (front (queueState c) + 1) mod maxSize (queueState c),
               size_q := size_q (queueState c) - 1\<rparr>,
            statusMessage := Dequeued (data (queueState c) ! nat (front (queueState c)))\<rparr>)"
proof -
  define q where "q = queueState c"
  note bs = inv_bounds[OF assms(1)[folded q_def]]
  have m: "0 < maxSize q" using bs by simp
  have j: "js_rem (front q + 1) (maxSize q) = Some ((front q + 1) mod maxSize q)"
    using bs m by (intro js_rem_nonneg) simp_all
  have s: "js_set (data q) (front q) Null = (data q)[nat (front q) := Null]"
    using bs by (simp add: js_set_def)
  have g: "js_get (data q) (front q) = data q ! nat (front q)"
    using bs by (simp add: js_get_def)
  show ?thesis
    using assms(2) j s g
    by (simp add: dequeue_def dequeue_click_def dequeue_timeout_def q_def[symmetric] Let_def)
qed

lemma enqueue_reject:
  assumes "parseInt (inputValue c) = Some v" "size_q (queueState c) \<ge> maxSize (queueState c)"
  shows "enqueue c = Some (c\<lparr>statusMessage := QueueFull\<rparr>)"
  using assms by (simp add: enqueue_def Let_def)

lemma enqueue_invalid:
  assumes "parseInt (inputValue c) = None"
  shows "enqueue c = Some (c\<lparr>statusMessage := InvalidNumber\<rparr>)"
  using assms by (simp add: enqueue_def Let_def)

lemma dequeue_reject:
  assumes "size_q (queueState c) = 0"
  shows "dequeue c = Some (c\<lparr>statusMessage := QueueEmptyDequeue\<rparr>)"
  using assms by (simp add: dequeue_def dequeue_click_def Let_def)

lemma fresh_inv:
  assumes "1 \<le> n"
  shows "queue_inv \<lparr>data = replicate (nat n) Null, front = 0, rear = - 1, size_q = 0, maxSize = n\<rparr>"
  using assms by (simp add: queue_inv_def slot_ok_def inWindow_def occupied_def)

subsection \<open>The invariant of the runs\<close>

lemma sys_inv_status:
  assumes "sys_inv s"
  shows "sys_inv (s\<lparr>cstate := (cstate s)\<lparr>statusMessage := m\<rparr>\<rparr>)"
  using assms by (simp add: sys_inv_def)

lemma initializeQueue_inv:
  assumes "sys_inv s"
  shows "sys_inv (s\<lparr>cstate := initializeQueue (cstate s)\<rparr>)"
  using assms fresh_inv
  by (auto simp: initializeQueue_def sys_inv_def split: option.splits)

lemma enqueue_sys_inv:
  assumes "sys_inv s"
  shows "\<exists>s'. step Enqueue s = Some s' \<and> sys_inv s'"
proof (cases "parseInt (inputValue (cstate s))")
  case None
  then show ?thesis using enqueue_invalid[OF None] sys_inv_status[OF assms] by simp
next
  case (Some v)
  show ?thesis
  proof (cases "size_q (queueState (cstate s)) \<ge> maxSize (queueState (cstate s))")
    case True
    then show ?thesis using enqueue_reject[OF Some True] sys_inv_status[OF assms] by simp
  next
    case False
    then have lt: "size_q (queueState (cstate s)) < maxSize (queueState (cstate s))" by simp
    have qi: "queue_inv (queueState (cstate s))"
      using assms False by (auto simp: sys_inv_def emptyQueueState_def)
    show ?thesis
      using enqueue_accept[OF qi Some lt] enqueue_inv[OF qi lt, of v] assms
      by (simp add: sys_inv_def)
  qed
qed

lemma dequeue_click_sys_inv:
  assumes "sys_inv s"
  shows "\<exists>s'. step Dequeue s = Some s' \<and> sys_inv s'"
proof (cases "size_q (queueState (cstate s)) = 0")
  case True
  then show ?thesis
    using sys_inv_status[OF assms] by (simp add: dequeue_click_def Let_def)
next
  case False
  have qi: "queue_inv (queueState (cstate s))"
    using assms False by (auto simp: sys_inv_def emptyQueueState_def)
  note bs = inv_bounds[OF qi]
  have pos: "0 < size_q (queueState (cstate s))" using False bs(5) by simp
  have d: "js_set (data (queueState (cstate s))) (front (queueState (cstate s))) Null
      = (data (queueState (cstate s)))[nat (front (queueState (cstate s))) := Null]"
    using bs by (simp add: js_set_def)
  show ?thesis
    using False qi pos d assms
    by (simp add: dequeue_click_def Let_def sys_inv_def closure_ok_def)
qed

lemma closure_fires:
  assumes "closure_ok cl"
  shows "\<exists>c'. dequeue_timeout cl c = Some c' \<and> queue_inv (queueState c') \<and>
    isInitialized c' = isInitialized c"
proof -
  define q where "q = captured cl"
  have qi: "queue_inv q" and pos: "0 < size_q q"
    and nd: "newData cl = (data q)[nat (front q) := Null]"
    using assms by (simp_all add: closure_ok_def q_def)
  note bs = inv_bounds[OF qi]
  have m: "0 < maxSize q" using bs by simp
  have j: "js_rem (front q + 1) (maxSize q) = Some ((front q + 1) mod maxSize q)"
    using bs m by (intro js_rem_nonneg) simp_all
  show ?thesis
    using j nd dequeue_inv[OF qi pos]
    by (simp add: dequeue_timeout_def q_def[symmetric] Let_def)
qed

lemma dequeue_timeout_sys_inv:
  assumes "sys_inv s"
  shows "\<exists>s'. step DequeueTimeout s = Some s' \<and> sys_inv s'"
proof (cases "pending s")
  case Nil
  then show ?thesis using assms by simp
next
  case (Cons cl rest)
  have ok: "closure_ok cl" and oks: "\<forall>x \<in> set rest. closure_ok x"
    using assms Cons by (simp_all add: sys_inv_def)
  obtain c' where f: "dequeue_timeout cl (cstate s) = Some c'"
    and qi: "queue_inv (queueState c')"
    using closure_fires[OF ok] by blast
  show ?thesis using Cons f qi oks by (simp add: sys_inv_def)
qed

lemma step_sys_inv:
  assumes "sys_inv s"
  shows "\<exists>s'. step e s = Some s' \<and> sys_inv s'"
proof (cases e)
  case InitializeQueue
  then show ?thesis using initializeQueue_inv[OF assms] by simp
next
  case Enqueue
  then show ?thesis using enqueue_sys_inv[OF assms] by simp
next
  case Dequeue
  then show ?thesis using dequeue_click_sys_inv[OF assms] by simp
next
  case DequeueTimeout
  then show ?thesis using dequeue_timeout_sys_inv[OF assms] by simp
qed (use assms in \<open>simp_all add: sys_inv_def enqueue_timeout_def getFront_def getRear_def
      checkIsEmpty_def checkIsFull_def showSize_def resetQueue_def goBack_def Let_def\<close>)

lemma run_sys_inv:
  assumes "sys_inv s"
  shows "\<exists>s'. run s es = Some s' \<and> sys_inv s'"
  using assms
proof (induction es arbitrary: s)
  case Nil
  then show ?case by simp
next
  case (Cons e es)
  from step_sys_inv[OF Cons.prems, of e] obtain s1 where
    s: "step e s = Some s1" and i: "sys_inv s1" by blast
  from Cons.IH[OF i] show ?case using s by simp
qed

lemma initial_sys_inv: "sys_inv initialSystem"
  by (simp add: sys_inv_def initialSystem_def initialComponent_def)

text \<open>
  Whenever the component is initialized, its queue is well formed, whatever was pressed
  while dequeue timers were pending.
\<close>

lemma initialized_queue_inv:
  assumes "run initialSystem es = Some s'" and "isInitialized (cstate s')"
  shows "queue_inv (queueState (cstate s'))"
  using run_sys_inv[OF initial_sys_inv, of es] assms by (auto simp: sys_inv_def)

text \<open>
  With no other callback pending, the press of Dequeue followed by the firing of its timer
  is \<open>dequeue\<close>.
\<close>

lemma dequeue_as_events:
  assumes "pending s = []"
  shows "run s [Dequeue, DequeueTimeout]
    = map_option (\<lambda>c'. \<lparr>cstate = c', pending = []\<rparr>) (dequeue (cstate s))"
proof (cases "dequeue_click (cstate s)")
  case (Pair c' r)
  show ?thesis
  proof (cases r)
    case None
    then show ?thesis using Pair assms by (simp add: dequeue_def)
  next
    case (Some cl)
    then show ?thesis using Pair assms by (simp add: dequeue_def split: option.splits)
  qed
qed

text \<open>
  From a state in which nothing is stored and no callback is pending, every event leads
  to such a state again, except an initialize that succeeds.
\<close>

lemma pristine_step:
  assumes "pristine s"
  shows "\<exists>s'. step e s = Some s' \<and>
    (pristine s' \<or> (e = InitializeQueue \<and> statusMessage (cstate s') \<noteq> InvalidSize))"
proof (cases e)
  case InitializeQueue
  then show ?thesis using assms
    by (auto simp: pristine_def initializeQueue_def split: option.splits)
next
  case Enqueue
  show ?thesis
  proof (cases "parseInt (inputValue (cstate s))")
    case None
    then show ?thesis using Enqueue assms enqueue_invalid[OF None] by (simp add: pristine_def)
  next
    case (Some v)
    have "size_q (queueState (cstate s)) \<ge> maxSize (queueState (cstate s))"
      using assms by (simp add: pristine_def emptyQueueState_def)
    then show ?thesis using Enqueue assms enqueue_reject[OF Some] by (simp add: pristine_def)
  qed
next
  case Dequeue
  then show ?thesis using assms
    by (simp add: pristine_def dequeue_click_def emptyQueueState_def Let_def)
qed (use assms in \<open>simp_all add: pristine_def enqueue_timeout_def getFront_def getRear_def
      checkIsEmpty_def checkIsFull_def showSize_def resetQueue_def goBack_def Let_def\<close>)

lemma pristine_run:
  assumes "pristine s" and "InitializeQueue \<notin> set es"
  shows "\<exists>s'. run s es = Some s' \<and> pristine s'"
  using assms
proof (induction es arbitrary: s)
  case Nil
  then show ?case by simp
next
  case (Cons e es)
  from pristine_step[OF Cons.prems(1), of e] Cons.prems(2) obtain s1 where
    s: "step e s = Some s1" and p: "pristine s1" by auto
  from Cons.IH[OF p] Cons.prems(2) show ?case using s by simp
qed

text \<open>
  The state at creation and after \<open>resetQueue\<close> is the empty queue state; on it \<open>enqueue\<close>
  of any number answers "Queue is full!" and changes nothing but the status line.
\<close>

lemma empty_state_enqueue:
  "queueState initialComponent = emptyQueueState"
  "queueState (resetQueue c0) = emptyQueueState"
  "queueState c = emptyQueueState \<Longrightarrow> parseInt (inputValue c) = Some v \<Longrightarrow>
     enqueue c = Some (c\<lparr>statusMessage := QueueFull\<rparr>)"
proof -
  show "queueState initialComponent = emptyQueueState"
    "queueState (resetQueue c0) = emptyQueueState"
    by (simp_all add: initialComponent_def resetQueue_def)
  show "enqueue c = Some (c\<lparr>statusMessage := QueueFull\<rparr>)"
    if "queueState c = emptyQueueState" "parseInt (inputValue c) = Some v"
    using that by (intro enqueue_reject) (simp_all add: emptyQueueState_def)
qed

section \<open>The operations of the queue\<close>

text \<open>
  An initialized queue is a queue state that satisfies \<open>queue_inv\<close>; \<open>initialized_queue_inv\<close>
  shows that the queue of the initialized component is such a state in every run. A value
  passed to \<open>enqueue\<close> is a text in the input field from which \<open>parseInt\<close> reads a number.
\<close>

text \<open>
  Claim C2. On every well-formed queue with \<open>size < maxSize\<close>, \<open>enqueue\<close> of a number \<open>v\<close>
  succeeds: the new \<open>rear\<close> is \<open>(rear + 1) mod maxSize\<close>, which is \<open>front\<close> when the queue was
  empty; it is an index of the array; the array is the old one with \<open>v\<close> in that slot and
  every other slot as before; \<open>size\<close> grows by one; \<open>front\<close> and \<open>maxSize\<close> stay; and the
  status line and the animated index report the new \<open>rear\<close> as the position of \<open>v\<close>.
\<close>

theorem enqueue_success:
  assumes "queue_inv (queueState c)"
    and "size_q (queueState c) < maxSize (queueState c)"
    and "parseInt (inputValue c) = Some v"
  shows "\<exists>c'. enqueue c = Some c' \<and>
    rear (queueState c') = (rear (queueState c) + 1) mod maxSize (queueState c) \<and>
    (size_q (queueState c) = 0 \<longrightarrow> rear (queueState c') = front (queueState c)) \<and>
    0 \<le> rear (queueState c') \<and> rear (queueState c') < int (length (data (queueState c))) \<and>
    data (queueState c') = (data (queueState c))[nat (rear (queueState c')) := Num v] \<and>
    size_q (queueState c') = size_q (queueState c) + 1 \<and>
    front (queueState c') = front (queueState c) \<and>
    maxSize (queueState c') = maxSize (queueState c) \<and>
    statusMessage c' = Enqueued v (rear (queueState c')) \<and>
    animatingIndex c' = Some (rear (queueState c'))"
proof -
  define q where "q = queueState c"
  have qi: "queue_inv q" using assms(1) by (simp add: q_def)
  note bs = inv_bounds[OF qi]
  have m: "0 < maxSize q" using bs by simp
  have b: "0 \<le> (rear q + 1) mod maxSize q" "(rear q + 1) mod maxSize q < int (length (data q))"
    using m bs(2) by simp_all
  have e: "size_q q = 0 \<longrightarrow> (rear q + 1) mod maxSize q = front q"
    using new_rear_eq[OF qi] bs by simp
  show ?thesis
    using enqueue_accept[OF assms(1,3,2)] b e by (simp add: q_def)
qed

theorem enqueue_success_witness:
  "queue_inv (queueState example_partial) \<and>
   size_q (queueState example_partial) < maxSize (queueState example_partial) \<and>
   parseInt (inputValue example_partial) = Some 7 \<and>
   (\<exists>c'. enqueue example_partial = Some c' \<and> rear (queueState c') = 2 \<and>
      data (queueState c') = [Num 5, Num 6, Num 7] \<and> size_q (queueState c') = 3 \<and>
      statusMessage c' = Enqueued 7 2)"
proof -
  have h1: "queue_inv (queueState example_partial)" by code_simp
  have h2: "size_q (queueState example_partial) < maxSize (queueState example_partial)"
    by code_simp
  have h3: "parseInt (inputValue example_partial) = Some 7" by code_simp
  from enqueue_success[OF h1 h2 h3] show ?thesis
    using h1 h2 h3 by (auto simp: example_partial_def)
qed

text \<open>
  Claim C3. On every well-formed queue with \<open>size > 0\<close>, \<open>dequeue\<close> succeeds: the slot at
  \<open>front\<close> holds a number, which the status line reports; the array is the old one with
  \<open>null\<close> in that slot and every other slot as before; \<open>front\<close> becomes
  \<open>(front + 1) mod maxSize\<close>; \<open>size\<close> shrinks by one; \<open>rear\<close> and \<open>maxSize\<close> stay.
\<close>

theorem dequeue_success:
  assumes "queue_inv (queueState c)" and "0 < size_q (queueState c)"
  shows "\<exists>c' v. dequeue c = Some c' \<and>
    0 \<le> front (queueState c) \<and> front (queueState c) < int (length (data (queueState c))) \<and>
    data (queueState c) ! nat (front (queueState c)) = Num v \<and>
    statusMessage c' = Dequeued (Num v) \<and>
    data (queueState c') = (data (queueState c))[nat (front (queueState c)) := Null] \<and>
    front (queueState c') = (front (queueState c) + 1) mod maxSize (queueState c) \<and>
    size_q (queueState c') = size_q (queueState c) - 1 \<and>
    rear (queueState c') = rear (queueState c) \<and>
    maxSize (queueState c') = maxSize (queueState c)"
proof -
  note bs = inv_bounds[OF assms(1)]
  obtain v where v: "data (queueState c) ! nat (front (queueState c)) = Num v"
    using slot_front[OF assms] by blast
  show ?thesis
    using dequeue_accept[OF assms] v bs by simp
qed

theorem dequeue_success_witness:
  "queue_inv (queueState example_single) \<and> 0 < size_q (queueState example_single) \<and>
   (\<exists>c'. dequeue example_single = Some c' \<and> statusMessage c' = Dequeued (Num 8) \<and>
      data (queueState c') = [Null, Null, Null] \<and> front (queueState c') = 0 \<and>
      size_q (queueState c') = 0)"
proof -
  have h1: "queue_inv (queueState example_single)" by code_simp
  have h2: "0 < size_q (queueState example_single)" by code_simp
  from dequeue_success[OF h1 h2] show ?thesis
    using h1 h2 by (auto simp: example_single_def)
qed

text \<open>
  Claim C4. On every well-formed queue, \<open>enqueue\<close> of a number answers "Queue is full!"
  exactly when \<open>size = maxSize\<close>, and then nothing but the status line has changed: the
  queue state (\<open>size\<close>, slots, \<open>front\<close>, \<open>rear\<close>) is the one before the call.
\<close>

theorem enqueue_full_rejected:
  assumes "queue_inv (queueState c)" and "parseInt (inputValue c) = Some v"
  shows "\<exists>c'. enqueue c = Some c' \<and>
    ((statusMessage c' = QueueFull) = (size_q (queueState c) = maxSize (queueState c))) \<and>
    (size_q (queueState c) = maxSize (queueState c) \<longrightarrow>
       c' = c\<lparr>statusMessage := QueueFull\<rparr> \<and> queueState c' = queueState c)"
proof (cases "size_q (queueState c) = maxSize (queueState c)")
  case True
  then show ?thesis using enqueue_reject[OF assms(2)] by simp
next
  case False
  then have lt: "size_q (queueState c) < maxSize (queueState c)"
    using inv_bounds(6)[OF assms(1)] by simp
  show ?thesis using enqueue_accept[OF assms(1,2) lt] False by simp
qed

theorem enqueue_full_rejected_witness:
  "queue_inv (queueState example_full) \<and> parseInt (inputValue example_full) = Some 9 \<and>
   size_q (queueState example_full) = maxSize (queueState example_full) \<and>
   (\<exists>c'. enqueue example_full = Some c' \<and> statusMessage c' = QueueFull \<and>
      queueState c' = queueState example_full)"
proof -
  have h1: "queue_inv (queueState example_full)" by code_simp
  have h2: "parseInt (inputValue example_full) = Some 9" by code_simp
  have h3: "size_q (queueState example_full) = maxSize (queueState example_full)" by code_simp
  from enqueue_full_rejected[OF h1 h2] show ?thesis
    using h1 h2 h3 by auto
qed

text \<open>
  Claim C5. On every well-formed queue, \<open>dequeue\<close>, \<open>getFront\<close> and \<open>getRear\<close> answer
  "Queue is empty!" exactly when \<open>size = 0\<close>; the rejected \<open>dequeue\<close> changes nothing but
  the status line; the two peeks never change anything but the status line; and when
  \<open>size > 0\<close> they report the numbers stored at \<open>front\<close> and at \<open>rear\<close>.
\<close>

theorem empty_rejected_and_peeks:
  assumes "queue_inv (queueState c)"
  shows "(\<exists>c'. dequeue c = Some c' \<and>
      ((statusMessage c' = QueueEmptyDequeue) = (size_q (queueState c) = 0)) \<and>
      (size_q (queueState c) = 0 \<longrightarrow> c' = c\<lparr>statusMessage := QueueEmptyDequeue\<rparr>)) \<and>
    ((statusMessage (getFront c) = QueueEmptyFront) = (size_q (queueState c) = 0)) \<and>
    ((statusMessage (getRear c) = QueueEmptyRear) = (size_q (queueState c) = 0)) \<and>
    only_status c (getFront c) \<and> only_status c (getRear c) \<and>
    queueState (getFront c) = queueState c \<and> queueState (getRear c) = queueState c \<and>
    (0 < size_q (queueState c) \<longrightarrow>
      (\<exists>v w. data (queueState c) ! nat (front (queueState c)) = Num v \<and>
             statusMessage (getFront c) = FrontElement (Num v) \<and>
             data (queueState c) ! nat (rear (queueState c)) = Num w \<and>
             statusMessage (getRear c) = RearElement (Num w)))"
proof -
  note bs = inv_bounds[OF assms]
  have d: "\<exists>c'. dequeue c = Some c' \<and>
      ((statusMessage c' = QueueEmptyDequeue) = (size_q (queueState c) = 0)) \<and>
      (size_q (queueState c) = 0 \<longrightarrow> c' = c\<lparr>statusMessage := QueueEmptyDequeue\<rparr>)"
  proof (cases "size_q (queueState c) = 0")
    case True
    then show ?thesis using dequeue_reject[OF True] by simp
  next
    case False
    then have pos: "0 < size_q (queueState c)" using bs(5) by simp
    show ?thesis using dequeue_accept[OF assms pos] False by simp
  qed
  have s: "(statusMessage (getFront c) = QueueEmptyFront) = (size_q (queueState c) = 0)"
    "(statusMessage (getRear c) = QueueEmptyRear) = (size_q (queueState c) = 0)"
    "only_status c (getFront c)" "only_status c (getRear c)"
    "queueState (getFront c) = queueState c" "queueState (getRear c) = queueState c"
    by (simp_all add: getFront_def getRear_def only_status_def Let_def)
  have p: "\<exists>v w. data (queueState c) ! nat (front (queueState c)) = Num v \<and>
             statusMessage (getFront c) = FrontElement (Num v) \<and>
             data (queueState c) ! nat (rear (queueState c)) = Num w \<and>
             statusMessage (getRear c) = RearElement (Num w)" if pos: "0 < size_q (queueState c)"
  proof -
    obtain v where v: "data (queueState c) ! nat (front (queueState c)) = Num v"
      using slot_front[OF assms pos] by blast
    obtain w where w: "data (queueState c) ! nat (rear (queueState c)) = Num w"
      using slot_rear[OF assms pos] by blast
    have rb: "0 \<le> rear (queueState c)" "rear (queueState c) < int (length (data (queueState c)))"
      using inv_rear_pos(1)[OF assms pos] inv_rear(2)[OF assms] bs(2) by simp_all
    show ?thesis using v w pos bs rb
      by (simp add: getFront_def getRear_def Let_def js_get_def)
  qed
  show ?thesis using d s p by blast
qed

theorem empty_rejected_and_peeks_witness:
  "queue_inv (queueState example_partial) \<and> 0 < size_q (queueState example_partial) \<and>
   statusMessage (getFront example_partial) = FrontElement (Num 5) \<and>
   statusMessage (getRear example_partial) = RearElement (Num 6) \<and>
   queue_inv (queueState example_fresh) \<and> size_q (queueState example_fresh) = 0 \<and>
   dequeue example_fresh = Some (example_fresh\<lparr>statusMessage := QueueEmptyDequeue\<rparr>) \<and>
   statusMessage (getFront example_fresh) = QueueEmptyFront \<and>
   statusMessage (getRear example_fresh) = QueueEmptyRear"
proof -
  have h1: "queue_inv (queueState example_partial)" by code_simp
  have h2: "0 < size_q (queueState example_partial)" by code_simp
  have h3: "queue_inv (queueState example_fresh)" by code_simp
  have h4: "size_q (queueState example_fresh) = 0" by code_simp
  have d: "data (queueState example_partial) ! nat (front (queueState example_partial)) = Num 5"
    "data (queueState example_partial) ! nat (rear (queueState example_partial)) = Num 6"
    by (simp_all add: example_partial_def)
  from empty_rejected_and_peeks[OF h1] empty_rejected_and_peeks[OF h3] show ?thesis
    using h1 h2 h3 h4 d by auto
qed

section \<open>Reachable states\<close>

text \<open>
  Claim C6. Every run of the component from its creation, under any sequence of events
  (typing, initialize, enqueue, the press of Dequeue, the firing of a dequeue callback at
  any later moment, the peeks and inspections, reset), ends in a state with
  \<open>0 \<le> size \<le> maxSize\<close>, with \<open>size\<close> equal to the number of occupied slots, and with
  \<open>rear = (front + size - 1) mod maxSize\<close> whenever \<open>size > 0\<close>. The runs that begin with a
  successful initialize and go on with queue operations are among them.
\<close>

theorem reachable_invariant:
  "\<exists>s'. run initialSystem es = Some s' \<and>
     0 \<le> size_q (queueState (cstate s')) \<and>
     size_q (queueState (cstate s')) \<le> maxSize (queueState (cstate s')) \<and>
     int (length (filter occupied (data (queueState (cstate s')))))
       = size_q (queueState (cstate s')) \<and>
     (0 < size_q (queueState (cstate s')) \<longrightarrow>
        rear (queueState (cstate s')) =
          (front (queueState (cstate s')) + size_q (queueState (cstate s')) - 1)
            mod maxSize (queueState (cstate s')))"
proof -
  obtain s' where r: "run initialSystem es = Some s'" and i: "sys_inv s'"
    using run_sys_inv[OF initial_sys_inv] by blast
  show ?thesis
  proof (cases "queue_inv (queueState (cstate s'))")
    case True
    show ?thesis
      using r inv_bounds(5,6,7)[OF True] inv_rear_pos(2)[OF True] by simp
  next
    case False
    then have "queueState (cstate s') = emptyQueueState" using i by (simp add: sys_inv_def)
    then show ?thesis using r by (simp add: emptyQueueState_def)
  qed
qed

theorem reachable_invariant_witness:
  "\<exists>s'. run initialSystem (fill_three @ [Dequeue, SetInputValue ''4'', Enqueue, DequeueTimeout])
       = Some s' \<and>
     0 < size_q (queueState (cstate s')) \<and> size_q (queueState (cstate s')) = 2 \<and>
     int (length (filter occupied (data (queueState (cstate s'))))) = 2 \<and>
     rear (queueState (cstate s')) = 2 \<and> front (queueState (cstate s')) = 1 \<and>
     maxSize (queueState (cstate s')) = 3"
proof -
  have e: "after (fill_three @ [Dequeue, SetInputValue ''4'', Enqueue, DequeueTimeout])
      (\<lambda>c. (size_q (queueState c), front (queueState c), maxSize (queueState c)))
      = Some (2, 1, 3)"
    by code_simp
  from reachable_invariant[of "fill_three @ [Dequeue, SetInputValue ''4'', Enqueue, DequeueTimeout]"]
  show ?thesis
    using e by (auto simp: after_def)
qed

text \<open>
  Claim C7. In a queue of three slots, enqueueing 1, 2 and 3 fills it; the next dequeue
  reports 1 and moves \<open>front\<close> to index 1; enqueueing 4 then succeeds, stores 4 at index 0,
  and the queue is full again. The dequeue is the press of the button and the firing of
  its callback.
\<close>

theorem wraparound_scenario:
  "after fill_three (\<lambda>c. data (queueState c)) = Some [Num 1, Num 2, Num 3] \<and>
   after (fill_three @ [CheckIsFull]) statusMessage = Some (QueueIsFull True) \<and>
   after (fill_three @ [Dequeue, DequeueTimeout]) statusMessage = Some (Dequeued (Num 1)) \<and>
   after (fill_three @ [Dequeue, DequeueTimeout]) (\<lambda>c. front (queueState c)) = Some 1 \<and>
   after (fill_three @ [Dequeue, DequeueTimeout, CheckIsFull]) statusMessage
     = Some (QueueIsFull False) \<and>
   after (fill_three @ [Dequeue, DequeueTimeout, SetInputValue ''4'', Enqueue]) statusMessage
     = Some (Enqueued 4 0) \<and>
   after (fill_three @ [Dequeue, DequeueTimeout, SetInputValue ''4'', Enqueue])
       (\<lambda>c. data (queueState c))
     = Some [Num 4, Num 2, Num 3] \<and>
   after (fill_three @ [Dequeue, DequeueTimeout, SetInputValue ''4'', Enqueue])
       (\<lambda>c. rear (queueState c))
     = Some 0 \<and>
   after (fill_three @ [Dequeue, DequeueTimeout, SetInputValue ''4'', Enqueue, CheckIsFull])
       statusMessage
     = Some (QueueIsFull True)"
  by code_simp

section \<open>What is pressed while a dequeue timer is pending\<close>

text \<open>
  The callback of a dequeue writes the queue state that its handler computed at the press,
  over whatever the state is when it fires. \<open>enqueue\<close> writes its state at once and keeps
  its timer in \<open>animationTimeoutRef\<close>, where the next enqueue cancels it; the dequeue timer
  is kept nowhere.
\<close>


text \<open>
  Claim C1. In a first-in-first-out queue the second dequeue returns the second value
  that went in, and a value that went in comes out later. Two runs in which every
  operation is called where the claim allows it (\<open>size > 0\<close> at each press of Dequeue,
  \<open>size < maxSize\<close> at the press of Enqueue) differ from that. In the queue that holds 1, 2
  and 3, Dequeue is pressed twice before the first timer fires: both callbacks report 1,
  and the queue still holds 2 and 3. In the queue of three slots that holds 5 and 6,
  Dequeue is pressed and then 7 is enqueued before the timer fires: the enqueue is
  accepted at slot 2, and the callback then writes the state of the press, in which
  slot 2 is empty, so 7 is gone and the queue holds 6 only.
\<close>

theorem dequeue_race:
  "after fill_three (\<lambda>c. size_q (queueState c)) = Some 3 \<and>
   after (fill_three @ [Dequeue]) (\<lambda>c. size_q (queueState c)) = Some 3 \<and>
   after (fill_three @ [Dequeue, Dequeue, DequeueTimeout]) statusMessage
     = Some (Dequeued (Num 1)) \<and>
   after (fill_three @ [Dequeue, Dequeue, DequeueTimeout, DequeueTimeout]) statusMessage
     = Some (Dequeued (Num 1)) \<and>
   after (fill_three @ [Dequeue, Dequeue, DequeueTimeout, DequeueTimeout]) queueState
     = Some \<lparr>data = [Null, Num 2, Num 3], front = 1, rear = 2, size_q = 2, maxSize = 3\<rparr> \<and>
   after (fill_two @ [Dequeue]) (\<lambda>c. (size_q (queueState c), maxSize (queueState c)))
     = Some (2, 3) \<and>
   after (fill_two @ [Dequeue, SetInputValue ''7'', Enqueue]) statusMessage
     = Some (Enqueued 7 2) \<and>
   after (fill_two @ [Dequeue, SetInputValue ''7'', Enqueue]) (\<lambda>c. data (queueState c))
     = Some [Num 5, Num 6, Num 7] \<and>
   after (fill_two @ [Dequeue, SetInputValue ''7'', Enqueue, DequeueTimeout]) statusMessage
     = Some (Dequeued (Num 5)) \<and>
   after (fill_two @ [Dequeue, SetInputValue ''7'', Enqueue, DequeueTimeout]) queueState
     = Some \<lparr>data = [Null, Num 6, Null], front = 1, rear = 1, size_q = 1, maxSize = 3\<rparr>"
  by code_simp

section \<open>First in, first out, in sequential runs\<close>

lemma fifo_general:
  assumes "queue_inv (queueState c)"
  shows "sequential_run c ops = Inl PreconditionViolated \<or>
    (\<exists>ins outs c'. sequential_run c ops = Inr (ins, outs, c') \<and> queue_inv (queueState c') \<and>
       contents (queueState c) @ map Num ins = outs @ contents (queueState c'))"
  using assms
proof (induction ops arbitrary: c)
  case Nil
  then show ?case by simp
next
  case (Cons op ops)
  show ?case
  proof (cases op)
    case (Enq s)
    show ?thesis
    proof (cases "parseInt s")
      case None
      then show ?thesis using Enq by simp
    next
      case (Some v)
      show ?thesis
      proof (cases "size_q (queueState c) < maxSize (queueState c)")
        case False
        then show ?thesis using Enq Some by simp
      next
        case True
        define c0 where "c0 = c\<lparr>inputValue := s\<rparr>"
        have q0: "queueState c0 = queueState c" by (simp add: c0_def)
        have i0: "queue_inv (queueState c0)" using Cons.prems q0 by simp
        have p0: "parseInt (inputValue c0) = Some v" using Some by (simp add: c0_def)
        have l0: "size_q (queueState c0) < maxSize (queueState c0)" using True q0 by simp
        obtain c1 where e: "enqueue c0 = Some c1"
          and q1: "queueState c1 = (queueState c)
              \<lparr>data := (data (queueState c))
                  [nat ((rear (queueState c) + 1) mod maxSize (queueState c)) := Num v],
               rear := (rear (queueState c) + 1) mod maxSize (queueState c),
               size_q := size_q (queueState c) + 1\<rparr>"
          using enqueue_accept[OF i0 p0 l0] q0 by simp
        have i1: "queue_inv (queueState c1)"
          unfolding q1 by (rule enqueue_inv[OF Cons.prems True])
        have k1: "contents (queueState c1) = contents (queueState c) @ [Num v]"
          unfolding q1 by (rule contents_enq[OF Cons.prems True])
        have f: "sequential_run c (op # ops) =
            (case sequential_run c1 ops of Inl e \<Rightarrow> Inl e
             | Inr (ins, outs, c'') \<Rightarrow> Inr (v # ins, outs, c''))"
          using Enq Some True e by (simp add: c0_def)
        from Cons.IH[OF i1] show ?thesis
        proof
          assume "sequential_run c1 ops = Inl PreconditionViolated"
          then show ?thesis using f by simp
        next
          assume "\<exists>ins outs c'. sequential_run c1 ops = Inr (ins, outs, c') \<and>
            queue_inv (queueState c') \<and>
            contents (queueState c1) @ map Num ins = outs @ contents (queueState c')"
          then obtain ins outs c' where r: "sequential_run c1 ops = Inr (ins, outs, c')"
            and i': "queue_inv (queueState c')"
            and k': "contents (queueState c1) @ map Num ins = outs @ contents (queueState c')"
            by blast
          have "sequential_run c (op # ops) = Inr (v # ins, outs, c')" using f r by simp
          moreover have "contents (queueState c) @ map Num (v # ins)
              = outs @ contents (queueState c')"
            using k' k1 by simp
          ultimately show ?thesis using i' by blast
        qed
      qed
    qed
  next
    case Deq
    show ?thesis
    proof (cases "0 < size_q (queueState c)")
      case False
      then show ?thesis using Deq by simp
    next
      case True
      define x where "x = data (queueState c) ! nat (front (queueState c))"
      note bs = inv_bounds[OF Cons.prems]
      obtain c1 where e: "dequeue c = Some c1"
        and q1: "queueState c1 = (queueState c)
              \<lparr>data := (data (queueState c))[nat (front (queueState c)) := Null],
               front := (front (queueState c) + 1) mod maxSize (queueState c),
               size_q := size_q (queueState c) - 1\<rparr>"
        and s1: "statusMessage c1 = Dequeued x"
        using dequeue_accept[OF Cons.prems True] by (simp add: x_def)
      have i1: "queue_inv (queueState c1)"
        unfolding q1 by (rule dequeue_inv[OF Cons.prems True])
      have g: "js_get (data (queueState c)) (front (queueState c)) = x"
        using bs by (simp add: js_get_def x_def)
      have k1: "contents (queueState c) = x # contents (queueState c1)"
        unfolding q1 using contents_deq[OF Cons.prems True] g by simp
      have f: "sequential_run c (op # ops) =
          (case sequential_run c1 ops of Inl e \<Rightarrow> Inl e
           | Inr (ins, outs, c'') \<Rightarrow> Inr (ins, x # outs, c''))"
        using Deq True e s1 by simp
      from Cons.IH[OF i1] show ?thesis
      proof
        assume "sequential_run c1 ops = Inl PreconditionViolated"
        then show ?thesis using f by simp
      next
        assume "\<exists>ins outs c'. sequential_run c1 ops = Inr (ins, outs, c') \<and>
          queue_inv (queueState c') \<and>
          contents (queueState c1) @ map Num ins = outs @ contents (queueState c')"
        then obtain ins outs c' where r: "sequential_run c1 ops = Inr (ins, outs, c')"
          and i': "queue_inv (queueState c')"
          and k': "contents (queueState c1) @ map Num ins = outs @ contents (queueState c')"
          by blast
        have "sequential_run c (op # ops) = Inr (ins, x # outs, c')" using f r by simp
        moreover have "contents (queueState c) @ map Num ins
            = (x # outs) @ contents (queueState c')"
          using k' k1 by simp
        ultimately show ?thesis using i' by blast
      qed
    qed
  qed
qed

text \<open>
  In every sequential run on a well-formed queue no operation fails, and the values stored
  at the start followed by the numbers passed to \<open>enqueue\<close> are the values reported by the
  successive \<open>dequeue\<close> calls followed by the values still stored, front to rear. On a
  queue that starts empty the reported values are therefore the first numbers passed to
  \<open>enqueue\<close>, in call order.
\<close>

lemma fifo_law_sequential:
  assumes "queue_inv (queueState c)"
  shows "sequential_run c ops = Inl PreconditionViolated \<or>
    (\<exists>ins outs c'. sequential_run c ops = Inr (ins, outs, c') \<and>
       contents (queueState c) @ map Num ins = outs @ contents (queueState c') \<and>
       (contents (queueState c) = [] \<longrightarrow>
          outs = map Num (take (length outs) ins) \<and>
          contents (queueState c') = map Num (drop (length outs) ins) \<and>
          (size_q (queueState c') = 0 \<longrightarrow> outs = map Num ins)))"
proof -
  from fifo_general[OF assms, of ops] show ?thesis
  proof
    assume "sequential_run c ops = Inl PreconditionViolated"
    then show ?thesis by simp
  next
    assume "\<exists>ins outs c'. sequential_run c ops = Inr (ins, outs, c') \<and> queue_inv (queueState c') \<and>
       contents (queueState c) @ map Num ins = outs @ contents (queueState c')"
    then obtain ins outs c' where r: "sequential_run c ops = Inr (ins, outs, c')"
      and k: "contents (queueState c) @ map Num ins = outs @ contents (queueState c')"
      by blast
    have p: "outs = map Num (take (length outs) ins) \<and>
          contents (queueState c') = map Num (drop (length outs) ins) \<and>
          (size_q (queueState c') = 0 \<longrightarrow> outs = map Num ins)"
      if "contents (queueState c) = []"
    proof -
      have m: "map Num ins = outs @ contents (queueState c')" using k that by simp
      have t: "take (length outs) (map Num ins) = outs" using m by simp
      have d: "drop (length outs) (map Num ins) = contents (queueState c')" using m by simp
      have z: "outs = map Num ins" if "size_q (queueState c') = 0"
        using m that by (simp add: contents_def)
      show ?thesis using t d z by (simp add: take_map drop_map)
    qed
    show ?thesis using r k p by blast
  qed
qed

section \<open>Initialization and the emptied queue\<close>

lemma parse_samples:
  "parseInt ''0'' = Some 0" "parseInt ''-1'' = Some (- 1)" "parseInt ''1'' = Some 1"
  "parseInt ''2.5'' = Some 2"
  by code_simp+

lemma js_rem_one: "js_rem 1 1 = Some 0" "js_rem 0 1 = Some 0"
  by (simp_all add: js_rem_def)

text \<open>
  Claim C8, amended. \<open>initializeQueue\<close> answers "Please enter a valid size" exactly when
  \<open>parseInt\<close> reads no number from the size text or reads one that is \<open>\<le> 0\<close> or \<open>> 20\<close>, and
  then nothing but the status line changes. The texts \<open>0\<close> and \<open>-1\<close> are read as 0 and -1,
  so they fail; a text that is not an integer numeral is read up to its first character
  that is no digit, so \<open>2.5\<close> is read as 2. With the text \<open>1\<close> the queue is created with one
  slot: one enqueue of any number fills it, and the dequeue after it reports that number
  and leaves the queue empty.
\<close>

theorem initialize_boundary:
  "((statusMessage (initializeQueue c) = InvalidSize) =
      (case parseInt (queueSize c) of None \<Rightarrow> True | Some n \<Rightarrow> n \<le> 0 \<or> 20 < n)) \<and>
   (statusMessage (initializeQueue c) = InvalidSize \<longrightarrow>
      initializeQueue c = c\<lparr>statusMessage := InvalidSize\<rparr>) \<and>
   parseInt ''0'' = Some 0 \<and> parseInt ''-1'' = Some (- 1) \<and> parseInt ''1'' = Some 1 \<and>
   parseInt ''2.5'' = Some 2 \<and>
   (queueSize c = ''1'' \<longrightarrow>
      isInitialized (initializeQueue c) \<and>
      statusMessage (initializeQueue c) = Initialized 1 \<and>
      queueState (initializeQueue c)
        = \<lparr>data = [Null], front = 0, rear = - 1, size_q = 0, maxSize = 1\<rparr> \<and>
      (\<forall>s v. parseInt s = Some v \<longrightarrow>
         (\<exists>c2 c3. enqueue ((initializeQueue c)\<lparr>inputValue := s\<rparr>) = Some c2 \<and>
            statusMessage c2 = Enqueued v 0 \<and>
            queueState c2 = \<lparr>data = [Num v], front = 0, rear = 0, size_q = 1, maxSize = 1\<rparr> \<and>
            statusMessage (checkIsFull c2) = QueueIsFull True \<and>
            dequeue c2 = Some c3 \<and>
            statusMessage c3 = Dequeued (Num v) \<and>
            queueState c3 = \<lparr>data = [Null], front = 0, rear = 0, size_q = 0, maxSize = 1\<rparr> \<and>
            statusMessage (checkIsEmpty c3) = QueueIsEmpty True)))"
proof -
  have a: "(statusMessage (initializeQueue c) = InvalidSize) =
      (case parseInt (queueSize c) of None \<Rightarrow> True | Some n \<Rightarrow> n \<le> 0 \<or> 20 < n)"
    by (simp add: initializeQueue_def split: option.splits)
  have b: "statusMessage (initializeQueue c) = InvalidSize \<longrightarrow>
      initializeQueue c = c\<lparr>statusMessage := InvalidSize\<rparr>"
    by (simp add: initializeQueue_def split: option.splits)
  have d: "isInitialized (initializeQueue c) \<and>
      statusMessage (initializeQueue c) = Initialized 1 \<and>
      queueState (initializeQueue c)
        = \<lparr>data = [Null], front = 0, rear = - 1, size_q = 0, maxSize = 1\<rparr> \<and>
      (\<forall>s v. parseInt s = Some v \<longrightarrow>
         (\<exists>c2 c3. enqueue ((initializeQueue c)\<lparr>inputValue := s\<rparr>) = Some c2 \<and>
            statusMessage c2 = Enqueued v 0 \<and>
            queueState c2 = \<lparr>data = [Num v], front = 0, rear = 0, size_q = 1, maxSize = 1\<rparr> \<and>
            statusMessage (checkIsFull c2) = QueueIsFull True \<and>
            dequeue c2 = Some c3 \<and>
            statusMessage c3 = Dequeued (Num v) \<and>
            queueState c3 = \<lparr>data = [Null], front = 0, rear = 0, size_q = 0, maxSize = 1\<rparr> \<and>
            statusMessage (checkIsEmpty c3) = QueueIsEmpty True))"
    if one: "queueSize c = ''1''"
  proof -
    have i: "initializeQueue c = c\<lparr>queueState :=
          \<lparr>data = [Null], front = 0, rear = - 1, size_q = 0, maxSize = 1\<rparr>,
        isInitialized := True, statusMessage := Initialized 1\<rparr>"
      using one parse_samples(3) by (simp add: initializeQueue_def)
    have e: "\<exists>c2 c3. enqueue ((initializeQueue c)\<lparr>inputValue := s\<rparr>) = Some c2 \<and>
            statusMessage c2 = Enqueued v 0 \<and>
            queueState c2 = \<lparr>data = [Num v], front = 0, rear = 0, size_q = 1, maxSize = 1\<rparr> \<and>
            statusMessage (checkIsFull c2) = QueueIsFull True \<and>
            dequeue c2 = Some c3 \<and>
            statusMessage c3 = Dequeued (Num v) \<and>
            queueState c3 = \<lparr>data = [Null], front = 0, rear = 0, size_q = 0, maxSize = 1\<rparr> \<and>
            statusMessage (checkIsEmpty c3) = QueueIsEmpty True"
      if p: "parseInt s = Some v" for s v
      using p js_rem_one
      by (simp add: i enqueue_def dequeue_def dequeue_click_def dequeue_timeout_def
          checkIsFull_def checkIsEmpty_def js_set_def js_get_def Let_def)
    show ?thesis using e by (simp add: i)
  qed
  show ?thesis using a b d parse_samples by blast
qed

theorem initialize_boundary_witness:
  "queueSize (initialComponent\<lparr>queueSize := ''1''\<rparr>) = ''1'' \<and> parseInt ''7'' = Some 7 \<and>
   statusMessage (initializeQueue (initialComponent\<lparr>queueSize := ''0''\<rparr>)) = InvalidSize \<and>
   statusMessage (initializeQueue (initialComponent\<lparr>queueSize := ''-1''\<rparr>)) = InvalidSize \<and>
   initializeQueue (initialComponent\<lparr>queueSize := ''0''\<rparr>)
     = initialComponent\<lparr>queueSize := ''0'', statusMessage := InvalidSize\<rparr> \<and>
   (\<exists>c2 c3. enqueue ((initializeQueue (initialComponent\<lparr>queueSize := ''1''\<rparr>))
        \<lparr>inputValue := ''7''\<rparr>) = Some c2 \<and>
      statusMessage (checkIsFull c2) = QueueIsFull True \<and>
      dequeue c2 = Some c3 \<and> statusMessage c3 = Dequeued (Num 7) \<and>
      statusMessage (checkIsEmpty c3) = QueueIsEmpty True)"
proof -
  have h1: "queueSize (initialComponent\<lparr>queueSize := ''1''\<rparr>) = ''1''" by simp
  have h2: "parseInt ''7'' = Some 7" by code_simp
  have h3: "queueSize (initialComponent\<lparr>queueSize := ''0''\<rparr>) = ''0''"
    "queueSize (initialComponent\<lparr>queueSize := ''-1''\<rparr>) = ''-1''" by simp_all
  define c1 where "c1 = initializeQueue (initialComponent\<lparr>queueSize := ''1''\<rparr>)"
  have "\<forall>s v. parseInt s = Some v \<longrightarrow>
      (\<exists>c2 c3. enqueue (c1\<lparr>inputValue := s\<rparr>) = Some c2 \<and>
         statusMessage c2 = Enqueued v 0 \<and>
         queueState c2 = \<lparr>data = [Num v], front = 0, rear = 0, size_q = 1, maxSize = 1\<rparr> \<and>
         statusMessage (checkIsFull c2) = QueueIsFull True \<and>
         dequeue c2 = Some c3 \<and>
         statusMessage c3 = Dequeued (Num v) \<and>
         queueState c3 = \<lparr>data = [Null], front = 0, rear = 0, size_q = 0, maxSize = 1\<rparr> \<and>
         statusMessage (checkIsEmpty c3) = QueueIsEmpty True)"
    unfolding c1_def
    using initialize_boundary[of "initialComponent\<lparr>queueSize := ''1''\<rparr>"] h1 by blast
  then have one: "\<exists>c2 c3. enqueue (c1\<lparr>inputValue := ''7''\<rparr>) = Some c2 \<and>
      statusMessage (checkIsFull c2) = QueueIsFull True \<and>
      dequeue c2 = Some c3 \<and> statusMessage c3 = Dequeued (Num 7) \<and>
      statusMessage (checkIsEmpty c3) = QueueIsEmpty True"
    using h2 by blast
  have z: "statusMessage (initializeQueue (initialComponent\<lparr>queueSize := ''0''\<rparr>)) = InvalidSize"
    "initializeQueue (initialComponent\<lparr>queueSize := ''0''\<rparr>)
       = initialComponent\<lparr>queueSize := ''0'', statusMessage := InvalidSize\<rparr>"
    using initialize_boundary[of "initialComponent\<lparr>queueSize := ''0''\<rparr>"] h3(1) by simp_all
  have n: "statusMessage (initializeQueue (initialComponent\<lparr>queueSize := ''-1''\<rparr>)) = InvalidSize"
    using initialize_boundary[of "initialComponent\<lparr>queueSize := ''-1''\<rparr>"] h3(2) by simp
  show ?thesis using h1 h2 z n one unfolding c1_def by blast
qed

text \<open>
  As the claim is written, a size that is not integral makes initialize fail. With the
  size text \<open>2.5\<close> the queue is created, with two slots.
\<close>

theorem initialize_fraction_counterexample:
  "isInitialized (initializeQueue (initialComponent\<lparr>queueSize := ''2.5''\<rparr>)) \<and>
   statusMessage (initializeQueue (initialComponent\<lparr>queueSize := ''2.5''\<rparr>)) = Initialized 2 \<and>
   queueState (initializeQueue (initialComponent\<lparr>queueSize := ''2.5''\<rparr>))
     = \<lparr>data = [Null, Null], front = 0, rear = - 1, size_q = 0, maxSize = 2\<rparr>"
  by code_simp

text \<open>
  Claim C9, amended. On every well-formed queue with \<open>size = 1\<close>, \<open>dequeue\<close> succeeds and
  leaves \<open>size = 0\<close>, and \<open>rear\<close> keeps its value: it is the index of the slot that was just
  emptied (the old \<open>front\<close>), a number from 0 on, and not the initial \<open>-1\<close>.
\<close>

theorem rear_kept_on_emptying:
  assumes "queue_inv (queueState c)" and "size_q (queueState c) = 1"
  shows "\<exists>c'. dequeue c = Some c' \<and> size_q (queueState c') = 0 \<and>
    rear (queueState c') = rear (queueState c) \<and>
    rear (queueState c') = front (queueState c) \<and>
    0 \<le> rear (queueState c') \<and> rear (queueState c') \<noteq> - 1"
proof -
  have pos: "0 < size_q (queueState c)" using assms(2) by simp
  note bs = inv_bounds[OF assms(1)]
  note rp = inv_rear_pos[OF assms(1) pos]
  have "rear (queueState c) = front (queueState c)" using rp(2) assms(2) bs by simp
  then show ?thesis
    using dequeue_accept[OF assms(1) pos] rp(1) assms(2) by simp
qed

theorem rear_kept_on_emptying_witness:
  "queue_inv (queueState example_single) \<and> size_q (queueState example_single) = 1 \<and>
   (\<exists>c'. dequeue example_single = Some c' \<and> size_q (queueState c') = 0 \<and>
      rear (queueState c') = 2)"
proof -
  have h1: "queue_inv (queueState example_single)" by code_simp
  have h2: "size_q (queueState example_single) = 1" by code_simp
  from rear_kept_on_emptying[OF h1 h2] show ?thesis
    using h1 h2 by (auto simp: example_single_def)
qed

text \<open>
  As the claim is written, \<open>rear\<close> is \<open>-1\<close> after the dequeue that empties the queue. On the
  queue that holds only 8 in slot 2, \<open>rear\<close> is 2 before and after that dequeue.
\<close>

theorem rear_sentinel_counterexample:
  "queue_inv (queueState example_single) \<and> size_q (queueState example_single) = 1 \<and>
   map_option (\<lambda>c. size_q (queueState c)) (dequeue example_single) = Some 0 \<and>
   map_option (\<lambda>c. rear (queueState c)) (dequeue example_single) = Some 2 \<and>
   map_option (\<lambda>c. rear (queueState c)) (dequeue example_single) \<noteq> Some (- 1)"
  by code_simp

end
